theory Spec2Isabelle
  imports Complex_Main "HOL-Library.Log_Nat" "HOL-Library.Multiset"
begin

section \<open>JavaScript numbers\<close>

text \<open>
  The TypeScript type \<^verbatim>\<open>number\<close> is the IEEE-754 binary64 format. A finite value of
  it is a rational, and the operators \<^verbatim>\<open>+\<close>, \<^verbatim>\<open>-\<close>, \<^verbatim>\<open>*\<close>, \<^verbatim>\<open>/\<close> return the exact
  result rounded to the nearest value with a 53-bit significand, ties going to the even
  significand. The model keeps that rounding. It leaves the exponent unbounded, so it
  describes the program on finite values of magnitude below \<open>2^1024\<close> (no overflow to
  \<^verbatim>\<open>Infinity\<close>) and, when not zero, at least \<open>2^-1022\<close> (no subnormals); \<^verbatim>\<open>NaN\<close> is not a
  value of the model.
\<close>

type_synonym number = rat

text \<open>The binary exponent of a positive rational: \<open>2^e \<le> x < 2^(e+1)\<close>.\<close>

definition binade :: "rat \<Rightarrow> int" where
  "binade x = (let (a, b) = quotient_of x; d = bitlen a - bitlen b
               in if 2 powi d \<le> x then d else d - 1)"

text \<open>Rounding to the nearest integer, a tie going to the even one.\<close>

definition round_even :: "rat \<Rightarrow> int" where
  "round_even x = (let n = \<lfloor>x\<rfloor>; r = x - of_int n
                   in if r < 1 / 2 then n else if 1 / 2 < r then n + 1
                      else if even n then n else n + 1)"

text \<open>Rounding a rational to binary64: a multiple of \<open>2^(e-52)\<close>.\<close>

definition to_double :: "rat \<Rightarrow> number" where
  "to_double x = (if x = 0 then 0
                  else let u = 2 powi (binade \<bar>x\<bar> - 52)
                       in of_int (round_even (x / u)) * u)"

definition js_add :: "number \<Rightarrow> number \<Rightarrow> number" where
  "js_add a b = to_double (a + b)"

definition js_sub :: "number \<Rightarrow> number \<Rightarrow> number" where
  "js_sub a b = to_double (a - b)"

definition js_mul :: "number \<Rightarrow> number \<Rightarrow> number" where
  "js_mul a b = to_double (a * b)"

definition js_div :: "number \<Rightarrow> number \<Rightarrow> number" where
  "js_div a b = to_double (a / b)"

text \<open>
  \<^verbatim>\<open>Math.round\<close> returns the nearest integer, a tie going towards plus infinity; the
  result is exact. \<^verbatim>\<open>Math.min\<close> of two finite numbers is their minimum.
\<close>

definition Math_round :: "number \<Rightarrow> number" where
  "Math_round x = of_int \<lfloor>x + 1 / 2\<rfloor>"

definition Math_min :: "number \<Rightarrow> number \<Rightarrow> number" where
  "Math_min a b = min a b"

section \<open>Types and configuration\<close>

record Donation =
  name :: string
  amount :: number
  timestamp :: string
  receiptUrl :: string

text \<open>
  The body of a response as \<^verbatim>\<open>data\<close> holds it: the code reads \<^verbatim>\<open>data.donations\<close> with
  \<^verbatim>\<open>??\<close>, so the field may be absent (or null), which is \<open>None\<close> here.
\<close>

record ApiResponse =
  data_success :: bool
  data_donations :: "Donation list option"
  data_error :: "string option"

record Config =
  APPS_SCRIPT_URL :: string
  GOOGLE_FORM_URL :: string
  DONATION_GOAL :: number
  REFRESH_MS :: number

definition CONFIG :: Config where
  "CONFIG = \<lparr>
     APPS_SCRIPT_URL = ''https://script.google.com/macros/s/AKfycbyskWmGGiHqGGk8frH3sLakCFMm-MiHBz2m87FZCzJyaVg6CcCaCcDgghhsFtZzvDDmFA/exec'',
     GOOGLE_FORM_URL = ''https://docs.google.com/spreadsheets/d/THIS_IS_YOUR_SHEET_ID/edit'',
     DONATION_GOAL = 15000000,
     REFRESH_MS = 30000 \<rparr>"

definition DEMO :: "Donation list" where
  "DEMO = [
     \<lparr> name = ''Ahmad Fauzi'', amount = 1000000, timestamp = ''01 Mar 2025, 10:22'', receiptUrl = [] \<rparr>,
     \<lparr> name = ''Siti Rahayu'', amount = 500000, timestamp = ''01 Mar 2025, 11:05'', receiptUrl = [] \<rparr>,
     \<lparr> name = ''Budi Santoso'', amount = 250000, timestamp = ''01 Mar 2025, 12:14'', receiptUrl = [] \<rparr>,
     \<lparr> name = ''Anonymous'', amount = 150000, timestamp = ''01 Mar 2025, 13:30'', receiptUrl = [] \<rparr>,
     \<lparr> name = ''Dewi Lestari'', amount = 750000, timestamp = ''01 Mar 2025, 14:01'', receiptUrl = [] \<rparr> ]"

section \<open>The count-up animator\<close>

text \<open>
  \<^verbatim>\<open>Math.pow\<close> is left to the engine by the language standard (an approximated value),
  so the functions below take it as the parameter \<open>pow\<close>. The clock values
  (\<^verbatim>\<open>performance.now()\<close> when the effect runs, the timestamp handed to each animation
  frame) are arguments.
\<close>

definition progress :: "number \<Rightarrow> number \<Rightarrow> number \<Rightarrow> number" where
  "progress duration start now = Math_min (js_div (js_sub now start) duration) 1"

definition eased_value :: "(number \<Rightarrow> number \<Rightarrow> number) \<Rightarrow> number \<Rightarrow> number \<Rightarrow> number" where
  "eased_value pow target p =
     (let eased = js_sub 1 (pow (js_sub 1 p) 4)
      in Math_round (js_mul eased target))"


text \<open>
  One engine's \<^verbatim>\<open>Math.pow\<close> for a non-negative whole exponent: the exact power, rounded
  once. It is used where a value of \<open>pow\<close> is needed to run the animator.
\<close>

definition pow_rounded :: "number \<Rightarrow> number \<Rightarrow> number" where
  "pow_rounded x n = to_double (x ^ nat \<lfloor>n\<rfloor>)"

text \<open>
  The state of one \<^verbatim>\<open>useCountUp\<close>: the displayed \<open>value\<close>, the dependencies of the
  effect as last run, the \<open>start\<close> time it captured, and whether an animation frame is
  requested and not cancelled.
\<close>

record CountUp =
  "value" :: number
  target :: number
  duration :: number
  start :: number
  pending :: bool

text \<open>The first render: \<^verbatim>\<open>useState(0)\<close>, then the effect runs at time \<open>now\<close>.\<close>

definition mount :: "number \<Rightarrow> number \<Rightarrow> number \<Rightarrow> CountUp" where
  "mount tgt dur now =
     \<lparr> value = 0, target = tgt, duration = dur, start = now, pending = True \<rparr>"

text \<open>
  A later render. When \<^verbatim>\<open>[target, duration]\<close> differ from the last run, the cleanup
  cancels the requested frame and the effect runs again: a new \<open>start\<close>, a new frame
  request. The displayed value is not assigned here.
\<close>

definition rerender :: "number \<Rightarrow> number \<Rightarrow> number \<Rightarrow> CountUp \<Rightarrow> CountUp" where
  "rerender tgt dur now h =
     (if tgt = target h \<and> dur = duration h then h
      else h\<lparr> target := tgt, duration := dur, start := now, pending := True \<rparr>)"

text \<open>The callback \<^verbatim>\<open>step\<close>, run by the browser when a frame is requested.\<close>

definition step :: "(number \<Rightarrow> number \<Rightarrow> number) \<Rightarrow> number \<Rightarrow> CountUp \<Rightarrow> CountUp" where
  "step pow now h =
     (if pending h then
        let p = progress (duration h) (start h) now
        in h\<lparr> value := eased_value pow (target h) p, pending := (p < 1) \<rparr>
      else h)"

text \<open>
  The animation loop: \<^verbatim>\<open>step\<close> requests the next frame itself, so the frames run one
  after the other, at the times the browser gives them; a frame that was not requested
  (or was cancelled) does not run.
\<close>

fun frames :: "(number \<Rightarrow> number \<Rightarrow> number) \<Rightarrow> number list \<Rightarrow> CountUp \<Rightarrow> CountUp" where
  "frames pow [] h = h"
| "frames pow (now # later) h = frames pow later (step pow now h)"

section \<open>Fetching the donations\<close>

text \<open>
  What \<^verbatim>\<open>fetch\<close> and \<^verbatim>\<open>res.json()\<close> can do: the request fails, or a response arrives
  with a status; its body is not JSON, is the JSON value null, or is an object read as
  an \<^verbatim>\<open>ApiResponse\<close>.
\<close>

datatype json_result = JsonSyntaxError | JsonNull | Json ApiResponse

record Response =
  status :: nat
  json :: json_result

datatype fetch_result = Rejected | Resolved Response

definition ok :: "Response \<Rightarrow> bool" where
  "ok res = (200 \<le> status res \<and> status res \<le> 299)"

datatype thrown = NetworkError | HttpError nat | SyntaxError | TypeError

record App =
  donations :: "Donation list"
  loading :: bool
  error :: "string option"
  lightboxSrc :: "string option"
  dark :: bool

definition initial :: "bool \<Rightarrow> App" where
  "initial d = \<lparr> donations = [], loading = True, error = None, lightboxSrc = None, dark = d \<rparr>"

definition isDemo :: "Config \<Rightarrow> bool" where
  "isDemo cfg = (APPS_SCRIPT_URL cfg = ''YOUR_APPS_SCRIPT_URL'')"

text \<open>
  The body of the \<^verbatim>\<open>try\<close> block up to the value handed to \<^verbatim>\<open>setDonations\<close>;
  \<open>Inl\<close> is what it throws.
\<close>

definition try_fetch :: "fetch_result \<Rightarrow> thrown + Donation list" where
  "try_fetch r =
     (case r of
        Rejected \<Rightarrow> Inl NetworkError
      | Resolved res \<Rightarrow>
          if \<not> ok res then Inl (HttpError (status res))
          else (case json res of
                  JsonSyntaxError \<Rightarrow> Inl SyntaxError
                | JsonNull \<Rightarrow> Inl TypeError
                | Json data \<Rightarrow>
                    Inr (case data_donations data of None \<Rightarrow> [] | Some ds \<Rightarrow> ds)))"

definition ERROR_MESSAGE :: string where
  "ERROR_MESSAGE = ''Could not load donation data. Will retry automatically.''"

text \<open>
  \<^verbatim>\<open>fetchDonations\<close>: the network is a function from the requested URL to what happens;
  the result is the new state and the list of the requests made.
\<close>

definition fetchDonations :: "Config \<Rightarrow> (string \<Rightarrow> fetch_result) \<Rightarrow> App \<Rightarrow> App \<times> string list" where
  "fetchDonations cfg fetch st =
     (if isDemo cfg then (st\<lparr> donations := DEMO, loading := False \<rparr>, [])
      else
        let st1 = (case try_fetch (fetch (APPS_SCRIPT_URL cfg)) of
                     Inr ds \<Rightarrow> st\<lparr> donations := ds, error := None \<rparr>
                   | Inl e \<Rightarrow> st\<lparr> error := Some ERROR_MESSAGE \<rparr>)
        in (st1\<lparr> loading := False \<rparr>, [APPS_SCRIPT_URL cfg]))"

text \<open>
  The refresh cycles: \<^verbatim>\<open>fetchDonations\<close> runs once at once and then at every tick of
  the timer, each time against the network as it is then.
\<close>

fun refresh :: "Config \<Rightarrow> (string \<Rightarrow> fetch_result) list \<Rightarrow> App \<Rightarrow> App \<times> string list" where
  "refresh cfg [] st = (st, [])"
| "refresh cfg (fetch # rest) st =
     (let (st1, reqs1) = fetchDonations cfg fetch st;
          (st2, reqs2) = refresh cfg rest st1
      in (st2, reqs1 @ reqs2))"

text \<open>The setup notice is rendered under \<^verbatim>\<open>isDemo &&\<close>.\<close>

definition demo_notice :: "Config \<Rightarrow> bool" where
  "demo_notice cfg = isDemo cfg"

section \<open>Fetching the donations at run time\<close>

text \<open>
  The type \<^verbatim>\<open>ApiResponse\<close> is declared, not checked: \<^verbatim>\<open>res.json()\<close> resolves with
  whatever JSON value the body holds, and \<^verbatim>\<open>setDonations\<close> stores what it is given. This
  section is \<^verbatim>\<open>fetchDonations\<close> on any body; the functions of the section before are the
  same on the bodies of the declared shape (lemma \<open>fetchDonations_js_typed\<close>).
\<close>

datatype json =
  JNull | JBool bool | JNumber number | JString string
  | JArray "json list" | JObject "(string \<times> json) list"

text \<open>\<^verbatim>\<open>res.json()\<close> rejects, or resolves with a JSON value.\<close>

datatype parsed = NotJson | Parsed json

record HttpResponse =
  http_status :: nat
  http_json :: parsed

datatype http_result = Failed | Responded HttpResponse

definition http_ok :: "HttpResponse \<Rightarrow> bool" where
  "http_ok res = (200 \<le> http_status res \<and> http_status res \<le> 299)"

text \<open>
  \<^verbatim>\<open>data.donations\<close> on a value that is not null: the member of that name of an object
  (the last one, when the body repeats the name), and undefined, here \<open>None\<close>, on an
  object without it and on a boolean, a number, a string or an array. On null the read
  throws. \<^verbatim>\<open>?? []\<close> replaces undefined and null by the empty array.
\<close>

fun donations_field :: "json \<Rightarrow> json option" where
  "donations_field (JObject members) = map_of (rev members) ''donations''"
| "donations_field other = None"

definition read_donations :: "json \<Rightarrow> thrown + json" where
  "read_donations data =
     (if data = JNull then Inl TypeError
      else Inr (case donations_field data of
                  None \<Rightarrow> JArray []
                | Some v \<Rightarrow> if v = JNull then JArray [] else v))"

definition try_fetch_js :: "http_result \<Rightarrow> thrown + json" where
  "try_fetch_js r =
     (case r of
        Failed \<Rightarrow> Inl NetworkError
      | Responded res \<Rightarrow>
          if \<not> http_ok res then Inl (HttpError (http_status res))
          else (case http_json res of
                  NotJson \<Rightarrow> Inl SyntaxError
                | Parsed data \<Rightarrow> read_donations data))"

text \<open>A donation list as the JSON value that the endpoint sends for it.\<close>

definition donation_json :: "Donation \<Rightarrow> json" where
  "donation_json d = JObject [(''name'', JString (name d)), (''amount'', JNumber (amount d)),
     (''timestamp'', JString (timestamp d)), (''receiptUrl'', JString (receiptUrl d))]"

definition donations_json :: "Donation list \<Rightarrow> json" where
  "donations_json ds = JArray (map donation_json ds)"

text \<open>The state of \<^verbatim>\<open>App\<close> with \<open>donations\<close> holding any value.\<close>

record AppJs =
  donations_js :: json
  loading_js :: bool
  error_js :: "string option"
  lightboxSrc_js :: "string option"
  dark_js :: bool

definition fetchDonations_js ::
    "Config \<Rightarrow> (string \<Rightarrow> http_result) \<Rightarrow> AppJs \<Rightarrow> AppJs \<times> string list" where
  "fetchDonations_js cfg fetch st =
     (if isDemo cfg then (st\<lparr> donations_js := donations_json DEMO, loading_js := False \<rparr>, [])
      else
        let st1 = (case try_fetch_js (fetch (APPS_SCRIPT_URL cfg)) of
                     Inr v \<Rightarrow> st\<lparr> donations_js := v, error_js := None \<rparr>
                   | Inl e \<Rightarrow> st\<lparr> error_js := Some ERROR_MESSAGE \<rparr>)
        in (st1\<lparr> loading_js := False \<rparr>, [APPS_SCRIPT_URL cfg]))"

text \<open>The bodies, results and states of the section before, as their run-time values.\<close>

definition data_json :: "ApiResponse \<Rightarrow> json" where
  "data_json data = JObject
     ((''success'', JBool (data_success data))
      # (case data_donations data of None \<Rightarrow> [] | Some ds \<Rightarrow> [(''donations'', donations_json ds)])
      @ (case data_error data of None \<Rightarrow> [] | Some e \<Rightarrow> [(''error'', JString e)]))"

definition result_js :: "fetch_result \<Rightarrow> http_result" where
  "result_js r =
     (case r of
        Rejected \<Rightarrow> Failed
      | Resolved res \<Rightarrow> Responded \<lparr> http_status = status res,
          http_json = (case json res of
                         JsonSyntaxError \<Rightarrow> NotJson
                       | JsonNull \<Rightarrow> Parsed JNull
                       | Json data \<Rightarrow> Parsed (data_json data)) \<rparr>)"

definition state_js :: "App \<Rightarrow> AppJs" where
  "state_js st = \<lparr> donations_js = donations_json (donations st), loading_js = loading st,
     error_js = error st, lightboxSrc_js = lightboxSrc st, dark_js = dark st \<rparr>"

section \<open>The aggregate view\<close>

text \<open>
  \<^verbatim>\<open>Array.prototype.sort\<close> is a stable comparison sort: \<open>a\<close> comes before \<open>b\<close> when the
  comparator is negative on \<open>(a, b)\<close>, and elements it calls equal keep their order.
  Stable insertion computes that order.
\<close>

definition compareFn :: "Donation \<Rightarrow> Donation \<Rightarrow> number" where
  "compareFn a b = js_sub (amount b) (amount a)"

fun insert_sorted :: "('a \<Rightarrow> 'a \<Rightarrow> number) \<Rightarrow> 'a \<Rightarrow> 'a list \<Rightarrow> 'a list" where
  "insert_sorted cmp x [] = [x]"
| "insert_sorted cmp x (y # ys) =
     (if cmp x y \<le> 0 then x # y # ys else y # insert_sorted cmp x ys)"

definition Array_sort :: "('a \<Rightarrow> 'a \<Rightarrow> number) \<Rightarrow> 'a list \<Rightarrow> 'a list" where
  "Array_sort cmp xs = foldr (insert_sorted cmp) xs []"

text \<open>
  Arrays are objects: a store maps a reference (an index) to the array's contents.
  \<^verbatim>\<open>[...a]\<close> allocates a new array with the elements of \<open>a\<close>; \<^verbatim>\<open>sort\<close> writes the
  sorted contents into the array it is called on and returns the same reference.
  A reference that the program holds is allocated: it is below the length of the store.
\<close>

type_synonym store = "Donation list list"

definition spread :: "store \<Rightarrow> nat \<Rightarrow> store \<times> nat" where
  "spread h a = (h @ [h ! a], length h)"

definition sort_in_place :: "(Donation \<Rightarrow> Donation \<Rightarrow> number) \<Rightarrow> store \<Rightarrow> nat \<Rightarrow> store \<times> nat" where
  "sort_in_place cmp h a = (h[a := Array_sort cmp (h ! a)], a)"

definition sorted_ref :: "store \<Rightarrow> nat \<Rightarrow> store \<times> nat" where
  "sorted_ref h donations_ref =
     (let (h1, copy) = spread h donations_ref
      in sort_in_place compareFn h1 copy)"

text \<open>The same three lines of \<^verbatim>\<open>App\<close> on the contents.\<close>

definition sorted_donations :: "Donation list \<Rightarrow> Donation list" where
  "sorted_donations ds = Array_sort compareFn ds"

definition total :: "Donation list \<Rightarrow> number" where
  "total ds = foldl (\<lambda>s d. js_add s (amount d)) 0 (sorted_donations ds)"

definition pct :: "Config \<Rightarrow> number \<Rightarrow> number" where
  "pct cfg t = Math_min 100 (Math_round (js_mul (js_div t (DONATION_GOAL cfg)) 100))"

text \<open>
  The words of the specification, \<open>min(100, round(total / goal * 100))\<close>, in exact
  arithmetic, with the nearest whole number for \<open>round\<close> and a tie going up, as in
  \<^verbatim>\<open>Math.round\<close>.
\<close>

definition pct_exact :: "Config \<Rightarrow> number \<Rightarrow> number" where
  "pct_exact cfg t = min 100 (of_int \<lfloor>t / DONATION_GOAL cfg * 100 + 1 / 2\<rfloor>)"

section \<open>Rounding to binary64\<close>

lemma bitlen_powi_bounds:
  assumes "0 < a"
  shows "(2::rat) powi (bitlen a - 1) \<le> of_int a" and "of_int a < (2::rat) powi bitlen a"
proof -
  from assms have l: "1 \<le> bitlen a"
    by (metis bitlen_eq_zero_iff bitlen_nonneg le_less not_le zle_diff1_eq diff_zero int_one_le_iff_zero_less)
  from bitlen_bounds [OF assms]
  have "(2::int) ^ nat (bitlen a - 1) \<le> a" and "a < 2 ^ nat (bitlen a)" by simp_all
  then have "of_int ((2::int) ^ nat (bitlen a - 1)) \<le> (of_int a :: rat)"
    and "(of_int a :: rat) < of_int (2 ^ nat (bitlen a))"
    by (simp_all only: of_int_le_iff of_int_less_iff)
  with l show "(2::rat) powi (bitlen a - 1) \<le> of_int a" and "of_int a < (2::rat) powi bitlen a"
    by (simp_all add: power_int_def)
qed

lemma binade_bounds:
  assumes "0 < x"
  shows "2 powi binade x \<le> x" and "x < 2 powi (binade x + 1)"
proof -
  obtain a b where q: "quotient_of x = (a, b)" by (cases "quotient_of x")
  then have b: "0 < b" and x: "x = of_int a / of_int b"
    by (simp_all add: quotient_of_denom_pos quotient_of_div)
  with assms have a: "0 < a"
    by (simp add: zero_less_divide_iff)
  define d where "d = bitlen a - bitlen b"
  note A = bitlen_powi_bounds [OF a] and B = bitlen_powi_bounds [OF b]
  have pb: "(0::rat) < of_int b" using b by simp
  have "x < 2 powi bitlen a / 2 powi (bitlen b - 1)"
    unfolding x using A(2) B(1) a
    by (intro frac_less) simp_all
  also have "\<dots> = 2 powi (d + 1)"
    by (simp add: d_def power_int_diff [symmetric] algebra_simps)
  finally have up: "x < 2 powi (d + 1)" .
  have "2 powi (bitlen a - 1) / 2 powi bitlen b \<le> x"
    unfolding x using A(1) B(2) a pb
    by (intro frac_le) simp_all
  moreover have "2 powi (bitlen a - 1) / 2 powi bitlen b = (2::rat) powi (d - 1)"
    by (simp add: d_def power_int_diff [symmetric] algebra_simps)
  ultimately have lo: "2 powi (d - 1) \<le> x" by simp
  have bd: "binade x = (if 2 powi d \<le> x then d else d - 1)"
    by (simp add: binade_def q d_def)
  show "2 powi binade x \<le> x" using lo by (simp add: bd)
  show "x < 2 powi (binade x + 1)" using up by (simp add: bd)
qed


lemma round_even_of_int: "round_even (of_int n) = n"
  by (simp add: round_even_def)

lemma round_even_floor_le: "\<lfloor>x\<rfloor> \<le> round_even x"
  by (simp add: round_even_def Let_def)

lemma round_even_le_floor: "round_even x \<le> \<lfloor>x\<rfloor> + 1"
  by (simp add: round_even_def Let_def)

lemma round_even_mono:
  assumes "x \<le> y"
  shows "round_even x \<le> round_even y"
proof (cases "\<lfloor>x\<rfloor> = \<lfloor>y\<rfloor>")
  case True
  with assms show ?thesis
    by (auto simp: round_even_def Let_def)
next
  case False
  with assms have "\<lfloor>x\<rfloor> + 1 \<le> \<lfloor>y\<rfloor>"
    using floor_mono [of x y] by linarith
  with round_even_le_floor [of x] round_even_floor_le [of y] show ?thesis
    by linarith
qed

lemma round_even_minus: "round_even (- x) = - round_even x"
proof -
  have f: "\<lfloor>- x\<rfloor> = (if x = of_int \<lfloor>x\<rfloor> then - \<lfloor>x\<rfloor> else - \<lfloor>x\<rfloor> - 1)"
    by (simp add: floor_minus ceiling_altdef)
  have r: "0 \<le> x - of_int \<lfloor>x\<rfloor>" by simp
  show ?thesis
  proof (cases "x = of_int \<lfloor>x\<rfloor>")
    case True
    then obtain n where "x = of_int n" ..
    then show ?thesis
      by (simp add: round_even_of_int flip: of_int_minus)
  next
    case False
    with r have "0 < x - of_int \<lfloor>x\<rfloor>" by linarith
    with False show ?thesis
      unfolding round_even_def Let_def f
      by (auto simp: algebra_simps)
  qed
qed


lemma to_double_0: "to_double 0 = 0"
  by (simp add: to_double_def)

lemma to_double_minus: "to_double (- x) = - to_double x"
  by (simp add: to_double_def Let_def round_even_minus)

lemma ulp_pos: "(0::rat) < 2 powi k"
  by simp

lemma to_double_pos_bounds:
  assumes "0 < x"
  shows "2 powi binade x \<le> to_double x" and "to_double x \<le> 2 powi (binade x + 1)"
proof -
  define u :: rat where "u = 2 powi (binade x - 52)"
  have u: "0 < u" by (simp add: u_def)
  have td: "to_double x = of_int (round_even (x / u)) * u"
    using assms by (simp add: to_double_def u_def Let_def)
  have e1: "2 powi binade x = of_int (2 ^ 52) * u"
    by (simp add: u_def power_int_diff)
  have e2: "2 powi (binade x + 1) = of_int (2 ^ 53) * u"
    by (simp add: u_def power_int_diff power_int_add)
  from binade_bounds(1) [OF assms] u have "of_int (2 ^ 52) \<le> x / u"
    by (simp add: e1 pos_le_divide_eq)
  from round_even_mono [OF this] have "2 ^ 52 \<le> round_even (x / u)"
    by (simp only: round_even_of_int)
  then have "(of_int (2 ^ 52) :: rat) \<le> of_int (round_even (x / u))"
    by (simp only: of_int_le_iff)
  from mult_right_mono [OF this less_imp_le [OF u]]
  show "2 powi binade x \<le> to_double x"
    unfolding td e1 .
  from binade_bounds(2) [OF assms] u have "x / u \<le> of_int (2 ^ 53)"
    by (simp add: e2 pos_divide_le_eq)
  from round_even_mono [OF this] have "round_even (x / u) \<le> 2 ^ 53"
    by (simp only: round_even_of_int)
  then have "(of_int (round_even (x / u)) :: rat) \<le> of_int (2 ^ 53)"
    by (simp only: of_int_le_iff)
  from mult_right_mono [OF this less_imp_le [OF u]]
  show "to_double x \<le> 2 powi (binade x + 1)"
    unfolding td e2 .
qed

lemma binade_mono:
  assumes "0 < x" and "x \<le> y"
  shows "binade x \<le> binade y"
proof (rule ccontr)
  assume "\<not> binade x \<le> binade y"
  then have "binade y + 1 \<le> binade x" by simp
  then have "(2::rat) powi (binade y + 1) \<le> 2 powi binade x"
    by (rule power_int_increasing) simp
  moreover from assms have "0 < y" by simp
  ultimately show False
    using binade_bounds(1) [OF assms(1)] binade_bounds(2) [of y] assms(2) by linarith
qed

lemma to_double_mono_pos:
  assumes "0 < x" and "x \<le> y"
  shows "to_double x \<le> to_double y"
proof (cases "binade x = binade y")
  case True
  from assms have y: "0 < y" by simp
  define u :: rat where "u = 2 powi (binade x - 52)"
  have u: "0 < u" by (simp add: u_def)
  from assms(2) u have "x / u \<le> y / u"
    by (simp add: divide_right_mono)
  then have "(of_int (round_even (x / u)) :: rat) \<le> of_int (round_even (y / u))"
    by (simp only: of_int_le_iff round_even_mono)
  with u have "of_int (round_even (x / u)) * u \<le> of_int (round_even (y / u)) * u"
    by (simp add: mult_right_mono)
  with assms(1) y True show ?thesis
    by (simp add: to_double_def u_def Let_def)
next
  case False
  from assms have y: "0 < y" by simp
  from False binade_mono [OF assms] have "binade x + 1 \<le> binade y" by simp
  then have "(2::rat) powi (binade x + 1) \<le> 2 powi binade y"
    by (rule power_int_increasing) simp
  with to_double_pos_bounds(2) [OF assms(1)] to_double_pos_bounds(1) [OF y]
  show ?thesis by linarith
qed

lemma to_double_pos: "0 < x \<Longrightarrow> 0 < to_double x"
  using to_double_pos_bounds(1) [of x] ulp_pos [of "binade x"] by linarith

lemma to_double_neg: "x < 0 \<Longrightarrow> to_double x < 0"
  using to_double_pos [of "- x"] by (simp add: to_double_minus)

lemma to_double_mono:
  assumes "x \<le> y"
  shows "to_double x \<le> to_double y"
proof -
  consider "0 < x" | "x = 0" "y = 0" | "x = 0" "0 < y" | "x < 0" "0 \<le> y" | "x < 0" "y < 0"
    using assms by linarith
  then show ?thesis
  proof cases
    case 1
    then show ?thesis using assms by (rule to_double_mono_pos)
  next
    case 2
    then show ?thesis by simp
  next
    case 3
    then show ?thesis using to_double_pos [of y] by (simp add: to_double_0)
  next
    case 4
    then have "to_double x < 0" by (simp add: to_double_neg)
    moreover from 4 have "0 \<le> to_double y"
      using to_double_pos [of y] by (cases "y = 0") (simp_all add: to_double_0)
    ultimately show ?thesis by simp
  next
    case 5
    then have "to_double (- y) \<le> to_double (- x)"
      using assms by (intro to_double_mono_pos) simp_all
    then show ?thesis by (simp add: to_double_minus)
  qed
qed

lemma to_double_le_0_iff: "to_double x \<le> 0 \<longleftrightarrow> x \<le> 0"
proof (cases "x \<le> 0")
  case True
  then show ?thesis using to_double_neg [of x] by (cases "x = 0") (simp_all add: to_double_0)
next
  case False
  then show ?thesis using to_double_pos [of x] by simp
qed

lemma to_double_nonneg: "0 \<le> x \<Longrightarrow> 0 \<le> to_double x"
  using to_double_mono [of 0 x] by (simp add: to_double_0)

lemma to_double_exact:
  assumes "x / 2 powi (binade \<bar>x\<bar> - 52) = of_int k"
  shows "to_double x = x"
proof (cases "x = 0")
  case True
  then show ?thesis by (simp add: to_double_0)
next
  case False
  have "to_double x = of_int k * 2 powi (binade \<bar>x\<bar> - 52)"
    using False by (simp add: to_double_def Let_def assms round_even_of_int)
  also have "\<dots> = x"
    by (simp flip: assms)
  finally show ?thesis .
qed

lemma to_double_nat:
  assumes "0 < n" and "n \<le> 2 ^ 53"
  shows "to_double (of_int n) = of_int n"
proof -
  define e where "e = binade (of_int n)"
  from assms have pos: "(0::rat) < of_int n" by simp
  from assms(2) have "(of_int n :: rat) \<le> of_int (2 ^ 53)"
    by (simp only: of_int_le_iff)
  then have le53: "(of_int n :: rat) \<le> 2 powi 53"
    by (simp add: power_int_def)
  have lo: "2 powi e \<le> (of_int n :: rat)" and hi: "(of_int n :: rat) < 2 powi (e + 1)"
    unfolding e_def using binade_bounds [OF pos] by simp_all
  have e53: "e \<le> 53"
  proof (rule ccontr)
    assume "\<not> e \<le> 53"
    then have "(2::rat) powi (53 + 1) \<le> 2 powi e"
      by (intro power_int_increasing) simp_all
    with lo le53 show False by simp
  qed
  show ?thesis
  proof (cases "e = 53")
    case True
    with lo le53 have "(of_int n :: rat) = 2 powi 53" by simp
    then have "(of_int n :: rat) / 2 powi (binade \<bar>of_int n\<bar> - 52) = of_int (2 ^ 52)"
      using True pos by (simp add: e_def abs_of_pos)
    then show ?thesis by (rule to_double_exact)
  next
    case False
    with e53 have "0 \<le> 52 - e" by simp
    then have "(2::rat) powi (52 - e) = of_int (2 ^ nat (52 - e))"
      by (simp add: power_int_def)
    then have "(of_int n :: rat) / 2 powi (e - 52) = of_int (n * 2 ^ nat (52 - e))"
      by (simp add: power_int_diff field_simps)
    then have "(of_int n :: rat) / 2 powi (binade \<bar>of_int n\<bar> - 52) = of_int (n * 2 ^ nat (52 - e))"
      using pos by (simp add: e_def abs_of_pos)
    then show ?thesis by (rule to_double_exact)
  qed
qed

lemma to_double_int:
  assumes "\<bar>n\<bar> \<le> 2 ^ 53"
  shows "to_double (of_int n) = of_int n"
proof -
  consider "0 < n" | "n = 0" | "n < 0" by linarith
  then show ?thesis
  proof cases
    case 1
    with assms show ?thesis by (simp add: to_double_nat)
  next
    case 2
    then show ?thesis by (simp add: to_double_0)
  next
    case 3
    with assms have "to_double (of_int (- n)) = of_int (- n)"
      by (intro to_double_nat) simp_all
    then show ?thesis by (simp add: to_double_minus)
  qed
qed

section \<open>Sorting and summing the donations\<close>

lemma compareFn_le_0: "compareFn x y \<le> 0 \<longleftrightarrow> amount y \<le> amount x"
  by (simp add: compareFn_def js_sub_def to_double_le_0_iff)

lemma insert_sorted_insort:
  "insert_sorted compareFn x ys = insort_key (\<lambda>d. - amount d) x ys"
  by (induction ys) (simp_all add: compareFn_le_0)

lemma Array_sort_sort_key:
  "Array_sort compareFn xs = sort_key (\<lambda>d. - amount d) xs"
  by (induction xs) (simp_all add: Array_sort_def sort_key_def insert_sorted_insort)

lemma sorted_donations_descending:
  "sorted_wrt (\<lambda>a b. amount b \<le> amount a) (sorted_donations ds)"
  using sorted_sort_key [of "\<lambda>d. - amount d" ds]
  by (simp add: sorted_donations_def Array_sort_sort_key sorted_map)

lemma mset_sorted_donations: "mset (sorted_donations ds) = mset ds"
  by (simp add: sorted_donations_def Array_sort_sort_key)

lemma sorted_donations_stable:
  "filter (\<lambda>d. amount d = v) (sorted_donations ds) = filter (\<lambda>d. amount d = v) ds"
  using sort_key_stable [of "\<lambda>d. - amount d" "- v" ds]
  by (simp add: sorted_donations_def Array_sort_sort_key)

lemma sorted_ref_eq:
  assumes "a < length h"
  shows "sorted_ref h a = (h @ [sorted_donations (h ! a)], length h)"
  using assms
  by (simp add: sorted_ref_def spread_def sort_in_place_def sorted_donations_def nth_append)

lemma keys_sorted_donations:
  "map (\<lambda>d. - amount d) (sorted_donations ds) = sort (map (\<lambda>d. - amount d) ds)"
proof (rule properties_for_sort [symmetric])
  show "mset (map (\<lambda>d. - amount d) (sorted_donations ds)) = mset (map (\<lambda>d. - amount d) ds)"
    by (simp add: mset_sorted_donations)
  show "sorted (map (\<lambda>d. - amount d) (sorted_donations ds))"
    by (simp add: sorted_donations_def Array_sort_sort_key)
qed

lemma amounts_sorted_donations:
  "map amount (sorted_donations ds) = map uminus (sort (map (\<lambda>d. - amount d) ds))"
  by (simp flip: keys_sorted_donations add: comp_def)

lemma amounts_order_independent:
  assumes "mset ds' = mset ds"
  shows "map amount (sorted_donations ds') = map amount (sorted_donations ds)"
proof -
  from assms have "mset (map (\<lambda>d. - amount d) ds') = mset (map (\<lambda>d. - amount d) ds)"
    by simp
  then have "sort (map (\<lambda>d. - amount d) ds') = sort (map (\<lambda>d. - amount d) ds)"
    by (metis sorted_list_of_multiset_mset)
  then show ?thesis by (simp only: amounts_sorted_donations)
qed

lemma total_amounts: "total ds = foldl js_add 0 (map amount (sorted_donations ds))"
  by (simp add: total_def foldl_map)

lemma to_double_Ints:
  assumes "x \<in> \<int>" and "\<bar>x\<bar> \<le> 2 ^ 53"
  shows "to_double x = x"
proof -
  from assms(1) obtain n where x: "x = of_int n" by (rule Ints_cases)
  with assms(2) have "(of_int \<bar>n\<bar> :: rat) \<le> of_int (2 ^ 53)" by simp
  then have "\<bar>n\<bar> \<le> 2 ^ 53" by (simp only: of_int_le_iff)
  then show ?thesis unfolding x by (rule to_double_int)
qed

lemma foldl_js_add_exact:
  assumes "\<forall>x\<in>set xs. x \<in> \<int>" and "acc \<in> \<int>"
    and "\<bar>acc\<bar> + (\<Sum>x\<leftarrow>xs. \<bar>x\<bar>) \<le> 2 ^ 53"
  shows "foldl js_add acc xs = acc + sum_list xs"
  using assms
proof (induction xs arbitrary: acc)
  case Nil
  then show ?case by simp
next
  case (Cons x xs)
  from Cons.prems have x: "x \<in> \<int>" and rest: "\<forall>y\<in>set xs. y \<in> \<int>" by simp_all
  have nn: "0 \<le> (\<Sum>y\<leftarrow>xs. \<bar>y\<bar>)" by (rule sum_list_nonneg) auto
  from Cons.prems(3) nn have "\<bar>acc + x\<bar> \<le> 2 ^ 53" by simp
  with x Cons.prems(2) have step: "js_add acc x = acc + x"
    by (simp add: js_add_def to_double_Ints)
  have "foldl js_add (acc + x) xs = (acc + x) + sum_list xs"
  proof (rule Cons.IH [OF rest])
    show "acc + x \<in> \<int>" using x Cons.prems(2) by simp
    show "\<bar>acc + x\<bar> + (\<Sum>y\<leftarrow>xs. \<bar>y\<bar>) \<le> 2 ^ 53" using Cons.prems(3) by simp
  qed
  with step show ?case by simp
qed

lemma foldl_js_add_nonneg:
  assumes "\<forall>x\<in>set xs. 0 \<le> x" and "0 \<le> acc"
  shows "0 \<le> foldl js_add acc xs"
  using assms
  by (induction xs arbitrary: acc) (simp_all add: js_add_def to_double_nonneg)

lemma sum_list_sorted_donations:
  "(\<Sum>d\<leftarrow>sorted_donations ds. f d) = (\<Sum>d\<leftarrow>ds. f d :: rat)"
proof -
  have "sum_mset (image_mset f (mset (sorted_donations ds))) = sum_mset (image_mset f (mset ds))"
    by (simp only: mset_sorted_donations)
  then show ?thesis by (simp only: sum_mset_sum_list flip: mset_map)
qed

lemma total_nonneg:
  assumes "\<forall>d\<in>set ds. 0 \<le> amount d"
  shows "0 \<le> total ds"
proof -
  have "set (sorted_donations ds) = set ds"
    by (metis mset_sorted_donations set_mset_mset)
  with assms show ?thesis
    unfolding total_amounts by (intro foldl_js_add_nonneg) simp_all
qed

lemma Math_round_nonneg: "0 \<le> x \<Longrightarrow> 0 \<le> Math_round x"
  by (simp add: Math_round_def)

lemma pct_bounds:
  assumes "0 \<le> t" and "0 < DONATION_GOAL cfg"
  shows "0 \<le> pct cfg t" and "pct cfg t \<le> 100"
proof -
  from assms have "0 \<le> js_div t (DONATION_GOAL cfg)"
    by (simp add: js_div_def to_double_nonneg)
  then have "0 \<le> js_mul (js_div t (DONATION_GOAL cfg)) 100"
    by (simp add: js_mul_def to_double_nonneg)
  then show "0 \<le> pct cfg t"
    by (simp add: pct_def Math_min_def Math_round_nonneg)
  show "pct cfg t \<le> 100"
    by (simp add: pct_def Math_min_def)
qed

section \<open>The animator: helper facts\<close>

lemma to_double_1: "to_double 1 = 1"
  using to_double_int [of 1] by simp

lemma floor_half: "\<lfloor>(1::rat) / 2\<rfloor> = 0"
  by (simp add: floor_eq_iff)



lemma Math_round_in_Ints: "Math_round x \<in> \<int>"
  by (simp add: Math_round_def)

lemma progress_le_1: "progress d s now \<le> 1"
  by (simp add: progress_def Math_min_def)

lemma progress_mono:
  assumes "0 < d" and "now \<le> now'"
  shows "progress d s now \<le> progress d s now'"
proof -
  from assms(2) have "js_sub now s \<le> js_sub now' s"
    by (simp add: js_sub_def to_double_mono)
  with assms(1) have "js_sub now s / d \<le> js_sub now' s / d"
    by (simp add: divide_right_mono)
  then have "js_div (js_sub now s) d \<le> js_div (js_sub now' s) d"
    by (simp add: js_div_def to_double_mono)
  then show ?thesis
    by (simp add: progress_def Math_min_def min.coboundedI1)
qed

lemma progress_start: "progress d s s = 0"
  by (simp add: progress_def Math_min_def js_sub_def js_div_def to_double_0)



lemma eased_value_0:
  assumes "pow 1 4 = 1"
  shows "eased_value pow tgt 0 = 0"
  using assms
  by (simp add: eased_value_def js_sub_def js_mul_def to_double_1 to_double_0 Math_round_def floor_half)





lemma progress_eq_1: "\<not> progress d s t < 1 \<Longrightarrow> progress d s t = 1"
  using progress_le_1 [of d s t] by simp

lemma frames_value:
  assumes d: "0 < d"
  shows "sorted (t0 # nows) \<Longrightarrow> target h = tgt \<Longrightarrow> duration h = d \<Longrightarrow> start h = s \<Longrightarrow>
         value h = eased_value pow tgt (progress d s t0) \<Longrightarrow>
         pending h = (progress d s t0 < 1) \<Longrightarrow>
         value (frames pow nows h) = eased_value pow tgt (progress d s (last (t0 # nows)))"
proof (induction nows arbitrary: h t0)
  case Nil
  then show ?case by simp
next
  case (Cons now nows)
  from Cons.prems(1) have le: "t0 \<le> now" and srt: "sorted (now # nows)" by simp_all
  have inv: "target (step pow now h) = tgt \<and> duration (step pow now h) = d
      \<and> start (step pow now h) = s
      \<and> value (step pow now h) = eased_value pow tgt (progress d s now)
      \<and> pending (step pow now h) = (progress d s now < 1)"
  proof (cases "pending h")
    case True
    with Cons.prems show ?thesis by (simp add: step_def Let_def)
  next
    case False
    with Cons.prems(6) have "progress d s t0 = 1" by (simp add: progress_eq_1)
    with progress_mono [OF d le, of s] progress_le_1 [of d s now]
    have "progress d s now = 1" by simp
    with False Cons.prems \<open>progress d s t0 = 1\<close> show ?thesis by (simp add: step_def)
  qed
  from Cons.IH [OF srt, of "step pow now h"] inv
  show ?case by simp
qed

lemma frames_mount_value:
  assumes "0 < d" and "sorted (now # nows)"
  shows "value (frames pow (now # nows) (mount tgt d s))
         = eased_value pow tgt (progress d s (last (now # nows)))"
proof -
  have "value (frames pow nows (step pow now (mount tgt d s)))
        = eased_value pow tgt (progress d s (last (now # nows)))"
    using assms(2)
    by (intro frames_value [OF assms(1)]) (simp_all add: step_def mount_def Let_def)
  then show ?thesis by simp
qed

lemma step_rerender_mount:
  assumes "tgt \<noteq> target h"
  shows "step pow now (rerender tgt dur t h) = step pow now (mount tgt dur t)"
  using assms by (simp add: rerender_def step_def mount_def Let_def)

section \<open>The rounding error\<close>

lemma round_even_error: "\<bar>of_int (round_even z) - z\<bar> \<le> 1 / 2"
proof -
  have "of_int \<lfloor>z\<rfloor> \<le> z" and "z < of_int \<lfloor>z\<rfloor> + 1" by linarith+
  then show ?thesis
    unfolding round_even_def Let_def by (auto simp: abs_le_iff)
qed

lemma to_double_error_pos:
  assumes "0 < y"
  shows "\<bar>to_double y - y\<bar> \<le> y / 2 ^ 53"
proof -
  define u :: rat where "u = 2 powi (binade y - 52)"
  have u: "0 < u" by (simp add: u_def)
  have td: "to_double y = of_int (round_even (y / u)) * u"
    using assms by (simp add: to_double_def u_def Let_def)
  have "to_double y - y = (of_int (round_even (y / u)) - y / u) * u"
    using u by (simp add: td field_simps)
  then have "\<bar>to_double y - y\<bar> = \<bar>of_int (round_even (y / u)) - y / u\<bar> * u"
    using u by (simp add: abs_mult abs_of_pos)
  also have "\<dots> \<le> 1 / 2 * u"
    using round_even_error [of "y / u"] u by (intro mult_right_mono) simp_all
  also have "\<dots> = 2 powi binade y / 2 ^ 53"
    by (simp add: u_def power_int_diff)
  also have "\<dots> \<le> y / 2 ^ 53"
    using binade_bounds(1) [OF assms] by (simp add: divide_right_mono)
  finally show ?thesis .
qed

lemma to_double_error: "\<bar>to_double y - y\<bar> \<le> \<bar>y\<bar> / 2 ^ 53"
proof -
  consider "0 < y" | "y = 0" | "y < 0" by linarith
  then show ?thesis
  proof cases
    case 1
    then show ?thesis using to_double_error_pos [of y] by simp
  next
    case 2
    then show ?thesis by (simp add: to_double_0)
  next
    case 3
    then have "\<bar>to_double (- y) - (- y)\<bar> \<le> (- y) / 2 ^ 53"
      by (intro to_double_error_pos) simp
    with 3 show ?thesis by (simp add: to_double_minus abs_minus_commute)
  qed
qed

lemma to_double_between:
  assumes "0 \<le> y"
  shows "y * (1 - 1 / 2 ^ 53) \<le> to_double y" and "to_double y \<le> y * (1 + 1 / 2 ^ 53)"
proof -
  define c where "c = y / 2 ^ 53"
  from to_double_error [of y] assms have "\<bar>to_double y - y\<bar> \<le> c"
    by (simp add: c_def)
  then have "y - c \<le> to_double y" and "to_double y \<le> y + c" by linarith+
  moreover have "y * (1 - 1 / 2 ^ 53) = y - c" and "y * (1 + 1 / 2 ^ 53) = y + c"
    by (simp_all add: c_def algebra_simps)
  ultimately show "y * (1 - 1 / 2 ^ 53) \<le> to_double y"
    and "to_double y \<le> y * (1 + 1 / 2 ^ 53)"
    by simp_all
qed



section \<open>The percentage and the exact quotient\<close>

lemma pct_round: "pct cfg t = min 100 (of_int \<lfloor>js_mul (js_div t (DONATION_GOAL cfg)) 100 + 1 / 2\<rfloor>)"
  by (simp add: pct_def Math_min_def Math_round_def)

lemma clamp_round_mono:
  assumes "z \<le> (z'::rat)"
  shows "min 100 (of_int \<lfloor>z + 1 / 2\<rfloor> :: rat) \<le> min 100 (of_int \<lfloor>z' + 1 / 2\<rfloor>)"
proof -
  from assms have "\<lfloor>z + 1 / 2\<rfloor> \<le> \<lfloor>z' + 1 / 2\<rfloor>" by (intro floor_mono) simp
  then have "(of_int \<lfloor>z + 1 / 2\<rfloor> :: rat) \<le> of_int \<lfloor>z' + 1 / 2\<rfloor>" by simp
  then show ?thesis by (rule min.mono [OF order_refl])
qed

lemma min_plus_one: "a \<le> b + 1 \<Longrightarrow> min c a \<le> min c b + (1::rat)"
  by (auto simp: min_def)

lemma clamp_round_close:
  assumes "z \<le> z'" and "z' - z < (1::rat)"
  shows "min 100 (of_int \<lfloor>z' + 1 / 2\<rfloor> :: rat) \<le> min 100 (of_int \<lfloor>z + 1 / 2\<rfloor>) + 1"
proof -
  from assms(2) have "z' + 1 / 2 < (z + 1 / 2) + 1" by simp
  also have "\<dots> < of_int (\<lfloor>z + 1 / 2\<rfloor> + 1) + 1" by simp linarith
  finally have "\<lfloor>z' + 1 / 2\<rfloor> < \<lfloor>z + 1 / 2\<rfloor> + 2"
    by (simp add: floor_less_iff)
  then have "\<lfloor>z' + 1 / 2\<rfloor> \<le> \<lfloor>z + 1 / 2\<rfloor> + 1" by simp
  then have "(of_int \<lfloor>z' + 1 / 2\<rfloor> :: rat) \<le> of_int \<lfloor>z + 1 / 2\<rfloor> + 1"
    by (metis of_int_1 of_int_add of_int_le_iff)
  then show ?thesis by (rule min_plus_one)
qed

lemma clamp_round_saturated:
  assumes "100 \<le> (z::rat)"
  shows "min 100 (of_int \<lfloor>z + 1 / 2\<rfloor> :: rat) = 100"
proof -
  from assms have "(100::int) \<le> \<lfloor>z + 1 / 2\<rfloor>" by (simp add: le_floor_iff)
  then have "(of_int 100 :: rat) \<le> of_int \<lfloor>z + 1 / 2\<rfloor>" by (simp only: of_int_le_iff)
  then show ?thesis by simp
qed

lemma scaled_quotient_between:
  assumes "0 \<le> t" and "0 < g"
  shows "t * (1 - 1 / 2 ^ 51) / g * 100 \<le> js_mul (js_div t g) 100"
    and "js_mul (js_div t g) 100 \<le> t * (1 + 1 / 2 ^ 51) / g * 100"
proof -
  define lo :: rat where "lo = 1 - 1 / 2 ^ 53"
  define hi :: rat where "hi = 1 + 1 / 2 ^ 53"
  define lo2 :: rat where "lo2 = 1 - 1 / 2 ^ 51"
  define hi2 :: rat where "hi2 = 1 + 1 / 2 ^ 51"
  define q where "q = t / g"
  define q' where "q' = js_div t g"
  have c: "0 \<le> lo" "0 \<le> hi" "lo2 \<le> lo * lo" "hi * hi \<le> hi2"
    by (simp_all add: lo_def hi_def lo2_def hi2_def)
  have q: "0 \<le> q" using assms by (simp add: q_def)
  have q': "q * lo \<le> q'" "q' \<le> q * hi"
    using to_double_between [OF q] by (simp_all add: js_div_def q_def q'_def lo_def hi_def)
  have nn: "0 \<le> q' * 100"
    using q by (simp add: js_div_def q_def q'_def to_double_nonneg)
  have m: "q' * 100 * lo \<le> js_mul q' 100" "js_mul q' 100 \<le> q' * 100 * hi"
    using to_double_between [OF nn] by (simp_all add: js_mul_def lo_def hi_def)
  have "q * lo2 \<le> q * (lo * lo)"
    using c(3) q by (rule mult_left_mono)
  also have "\<dots> = q * lo * lo" by simp
  also have "\<dots> \<le> q' * lo"
    using q'(1) c(1) by (rule mult_right_mono)
  finally have "q * lo2 * 100 \<le> q' * lo * 100" by simp
  also have "\<dots> = q' * 100 * lo" by simp
  also note m(1)
  finally have l: "q * lo2 * 100 \<le> js_mul q' 100" .
  have "q' * hi \<le> q * hi * hi"
    using q'(2) c(2) by (rule mult_right_mono)
  also have "\<dots> = q * (hi * hi)" by simp
  also have "\<dots> \<le> q * hi2"
    using c(4) q by (rule mult_left_mono)
  finally have "q' * hi * 100 \<le> q * hi2 * 100" by simp
  moreover have "q' * hi * 100 = q' * 100 * hi" by simp
  ultimately have h: "js_mul q' 100 \<le> q * hi2 * 100" using m(2) by simp
  have "t * lo2 / g * 100 = q * lo2 * 100" and "t * hi2 / g * 100 = q * hi2 * 100"
    by (simp_all add: q_def)
  with l h show "t * (1 - 1 / 2 ^ 51) / g * 100 \<le> js_mul (js_div t g) 100"
    and "js_mul (js_div t g) 100 \<le> t * (1 + 1 / 2 ^ 51) / g * 100"
    by (simp_all only: lo2_def hi2_def q'_def)
qed

lemma pct_between:
  assumes "0 \<le> t" and "0 < DONATION_GOAL cfg"
  shows "pct_exact cfg (t * (1 - 1 / 2 ^ 51)) \<le> pct cfg t"
    and "pct cfg t \<le> pct_exact cfg (t * (1 + 1 / 2 ^ 51))"
  unfolding pct_exact_def pct_round
  using scaled_quotient_between [OF assms] by (simp_all only: clamp_round_mono)

lemma pct_exact_spread:
  assumes "0 \<le> t" and "0 < DONATION_GOAL cfg"
  shows "pct_exact cfg (t * (1 - 1 / 2 ^ 51)) \<le> pct_exact cfg t"
    and "pct_exact cfg t \<le> pct_exact cfg (t * (1 + 1 / 2 ^ 51))"
    and "pct_exact cfg (t * (1 + 1 / 2 ^ 51)) \<le> pct_exact cfg (t * (1 - 1 / 2 ^ 51)) + 1"
proof -
  define x where "x = t / DONATION_GOAL cfg * 100"
  have x: "0 \<le> x" using assms by (simp add: x_def)
  have lo: "t * (1 - 1 / 2 ^ 51) / DONATION_GOAL cfg * 100 = x * (1 - 1 / 2 ^ 51)"
    and hi: "t * (1 + 1 / 2 ^ 51) / DONATION_GOAL cfg * 100 = x * (1 + 1 / 2 ^ 51)"
    by (simp_all add: x_def)
  have l: "x * (1 - 1 / 2 ^ 51) \<le> x" and h: "x \<le> x * (1 + 1 / 2 ^ 51)"
    using x by (simp_all add: algebra_simps)
  show "pct_exact cfg (t * (1 - 1 / 2 ^ 51)) \<le> pct_exact cfg t"
    unfolding pct_exact_def lo using l by (simp only: x_def [symmetric] clamp_round_mono)
  show "pct_exact cfg t \<le> pct_exact cfg (t * (1 + 1 / 2 ^ 51))"
    unfolding pct_exact_def hi using h by (simp only: x_def [symmetric] clamp_round_mono)
  show "pct_exact cfg (t * (1 + 1 / 2 ^ 51)) \<le> pct_exact cfg (t * (1 - 1 / 2 ^ 51)) + 1"
  proof (cases "x < 200")
    case True
    have "x * (1 + 1 / 2 ^ 51) - x * (1 - 1 / 2 ^ 51) = x * (2 / 2 ^ 51)"
      by (simp add: algebra_simps)
    also have "\<dots> < 1" using True x by simp
    finally have "x * (1 + 1 / 2 ^ 51) - x * (1 - 1 / 2 ^ 51) < 1" .
    moreover have "x * (1 - 1 / 2 ^ 51) \<le> x * (1 + 1 / 2 ^ 51)" using l h by simp
    ultimately show ?thesis
      unfolding pct_exact_def lo hi by (intro clamp_round_close)
  next
    case False
    then have "100 \<le> x * (1 - 1 / 2 ^ 51)" by simp
    then have "pct_exact cfg (t * (1 - 1 / 2 ^ 51)) = 100"
      unfolding pct_exact_def lo by (rule clamp_round_saturated)
    moreover have "pct_exact cfg (t * (1 + 1 / 2 ^ 51)) \<le> 100"
      by (simp add: pct_exact_def)
    ultimately show ?thesis by simp
  qed
qed

lemma to_double_100: "to_double 100 = 100"
  using to_double_int [of 100] by simp

lemma pct_goal_reached:
  assumes "0 < DONATION_GOAL cfg" and "DONATION_GOAL cfg \<le> t"
  shows "pct cfg t = 100"
proof -
  from assms have "1 \<le> t / DONATION_GOAL cfg" by (simp add: pos_le_divide_eq)
  then have "to_double 1 \<le> js_div t (DONATION_GOAL cfg)"
    unfolding js_div_def by (rule to_double_mono)
  then have "100 \<le> js_div t (DONATION_GOAL cfg) * 100" by (simp add: to_double_1)
  then have "to_double 100 \<le> js_mul (js_div t (DONATION_GOAL cfg)) 100"
    unfolding js_mul_def by (rule to_double_mono)
  then have "100 \<le> js_mul (js_div t (DONATION_GOAL cfg)) 100" by (simp add: to_double_100)
  then show ?thesis unfolding pct_round by (rule clamp_round_saturated)
qed

section \<open>The animator and the exact quartic\<close>








section \<open>The fetcher: helper facts\<close>

lemma not_demo_fetch:
  assumes "\<not> isDemo cfg"
  shows "fetchDonations cfg fetch st =
    ((case try_fetch (fetch (APPS_SCRIPT_URL cfg)) of
        Inr ds \<Rightarrow> st\<lparr> donations := ds, error := None \<rparr>
      | Inl e \<Rightarrow> st\<lparr> error := Some ERROR_MESSAGE \<rparr>)\<lparr> loading := False \<rparr>,
     [APPS_SCRIPT_URL cfg])"
  using assms by (simp add: fetchDonations_def Let_def)

lemma refresh_not_demo:
  assumes "\<not> isDemo cfg"
  shows "snd (refresh cfg fetches st) = replicate (length fetches) (APPS_SCRIPT_URL cfg)"
  by (induction fetches arbitrary: st)
    (simp_all add: not_demo_fetch [OF assms] split_beta Let_def)

lemma not_demo_fetch_js:
  assumes "\<not> isDemo cfg"
  shows "fetchDonations_js cfg fetch st =
    ((case try_fetch_js (fetch (APPS_SCRIPT_URL cfg)) of
        Inr v \<Rightarrow> st\<lparr> donations_js := v, error_js := None \<rparr>
      | Inl e \<Rightarrow> st\<lparr> error_js := Some ERROR_MESSAGE \<rparr>)\<lparr> loading_js := False \<rparr>,
     [APPS_SCRIPT_URL cfg])"
  using assms by (simp add: fetchDonations_js_def Let_def)

lemma read_donations_data_json:
  "read_donations (data_json data)
   = Inr (donations_json (case data_donations data of None \<Rightarrow> [] | Some ds \<Rightarrow> ds))"
  by (simp add: read_donations_def data_json_def donations_json_def
      split: option.splits)

lemma read_donations_null: "read_donations JNull = Inl TypeError"
  by (simp add: read_donations_def)

lemma try_fetch_js_typed:
  "try_fetch_js (result_js r) = map_sum id donations_json (try_fetch r)"
  by (simp add: try_fetch_js_def result_js_def try_fetch_def http_ok_def ok_def
      read_donations_data_json read_donations_null
      split: fetch_result.splits json_result.splits)

lemma fetchDonations_js_typed:
  "fetchDonations_js cfg (\<lambda>url. result_js (fetch url)) (state_js st)
   = (state_js (fst (fetchDonations cfg fetch st)), snd (fetchDonations cfg fetch st))"
  by (cases "try_fetch (fetch (APPS_SCRIPT_URL cfg))")
    (simp_all add: fetchDonations_js_def fetchDonations_def try_fetch_js_typed state_js_def Let_def)

lemma donations_field_other_members:
  "donations_field (JObject ((''success'', s) # (''error'', e) # members))
   = donations_field (JObject members)"
  by (simp add: map_add_def split: option.splits)

section \<open>The claims\<close>

text \<open>
  Claim C1. \<^verbatim>\<open>[...donations].sort((a, b) => b.amount - a.amount)\<close>, for an allocated array
  \<open>donations_ref\<close> in any store: the array returned holds the donations sorted by amount,
  largest first; it is a permutation of the input in which the records of any one amount
  keep their order; and the input array, like every array that was in the store, holds
  what it held before, the sorted contents being written to a new array.
\<close>

theorem sorted_ref_stable_descending:
  assumes "donations_ref < length h"
  shows "case sorted_ref h donations_ref of (h', s) \<Rightarrow>
           h' ! s = sorted_donations (h ! donations_ref)
         \<and> sorted_wrt (\<lambda>a b. amount b \<le> amount a) (h' ! s)
         \<and> mset (h' ! s) = mset (h ! donations_ref)
         \<and> (\<forall>v. filter (\<lambda>d. amount d = v) (h' ! s) = filter (\<lambda>d. amount d = v) (h ! donations_ref))
         \<and> h' ! donations_ref = h ! donations_ref
         \<and> take (length h) h' = h"
  using assms
  by (simp add: sorted_ref_eq nth_append sorted_donations_descending mset_sorted_donations
      sorted_donations_stable)

text \<open>
  Claim C1 on the store holding the fallback list at reference 0.
\<close>

theorem sorted_ref_stable_descending_witness:
  "(0::nat) < length [DEMO] \<and>
   (case sorted_ref [DEMO] 0 of (h', s) \<Rightarrow>
      map name (h' ! s) = [''Ahmad Fauzi'', ''Dewi Lestari'', ''Siti Rahayu'', ''Budi Santoso'', ''Anonymous'']
    \<and> sorted_wrt (\<lambda>a b. amount b \<le> amount a) (h' ! s)
    \<and> mset (h' ! s) = mset DEMO
    \<and> (\<forall>v. filter (\<lambda>d. amount d = v) (h' ! s) = filter (\<lambda>d. amount d = v) DEMO)
    \<and> h' ! 0 = DEMO
    \<and> take 1 h' = [DEMO])"
proof -
  have s: "map name (sorted_donations DEMO) =
      [''Ahmad Fauzi'', ''Dewi Lestari'', ''Siti Rahayu'', ''Budi Santoso'', ''Anonymous'']"
    by code_simp
  show ?thesis
    using sorted_ref_stable_descending [of 0 "[DEMO]"] s
    by (simp add: sorted_ref_eq)
qed

text \<open>
  Claim C2 says that the total is the exact sum of the amounts for every list. For the
  amounts \<open>2^53\<close>, 1 and 1 the running sum stays at \<open>2^53\<close>, since \<open>2^53 + 1\<close> is not a
  binary64 value and the tie goes to the even significand; the exact sum is \<open>2^53 + 2\<close>.
\<close>

theorem total_not_exact_above_2_53:
  "total [\<lparr> name = ''A'', amount = 2 ^ 53, timestamp = [], receiptUrl = [] \<rparr>,
          \<lparr> name = ''B'', amount = 1, timestamp = [], receiptUrl = [] \<rparr>,
          \<lparr> name = ''C'', amount = 1, timestamp = [], receiptUrl = [] \<rparr>] = 2 ^ 53
   \<and> sum_list (map amount
         [\<lparr> name = ''A'', amount = 2 ^ 53, timestamp = [], receiptUrl = [] \<rparr>,
          \<lparr> name = ''B'', amount = 1, timestamp = [], receiptUrl = [] \<rparr>,
          \<lparr> name = ''C'', amount = 1, timestamp = [], receiptUrl = [] \<rparr>]) = 2 ^ 53 + 2
   \<and> total [\<lparr> name = ''A'', amount = 2 ^ 53, timestamp = [], receiptUrl = [] \<rparr>,
          \<lparr> name = ''B'', amount = 1, timestamp = [], receiptUrl = [] \<rparr>,
          \<lparr> name = ''C'', amount = 1, timestamp = [], receiptUrl = [] \<rparr>]
     \<noteq> sum_list (map amount
         [\<lparr> name = ''A'', amount = 2 ^ 53, timestamp = [], receiptUrl = [] \<rparr>,
          \<lparr> name = ''B'', amount = 1, timestamp = [], receiptUrl = [] \<rparr>,
          \<lparr> name = ''C'', amount = 1, timestamp = [], receiptUrl = [] \<rparr>])"
  by code_simp

text \<open>
  Claim C2, amended. The total is the same for every permutation of the list, whatever
  the amounts: the sum runs over the sorted copy, whose sequence of amounts does not
  depend on the input order. It is the exact sum when the amounts are integers whose
  absolute values add up to at most \<open>2^53\<close>.
\<close>

theorem total_order_independent_exact_below_2_53:
  "(mset ds' = mset ds \<longrightarrow> total ds' = total ds) \<and>
   ((\<forall>d\<in>set ds. amount d \<in> \<int>) \<and> (\<Sum>d\<leftarrow>ds. \<bar>amount d\<bar>) \<le> 2 ^ 53 \<longrightarrow>
      total ds = (\<Sum>d\<leftarrow>ds. amount d))"
proof (intro conjI impI)
  assume "mset ds' = mset ds"
  from amounts_order_independent [OF this] show "total ds' = total ds"
    by (simp only: total_amounts)
next
  assume a: "(\<forall>d\<in>set ds. amount d \<in> \<int>) \<and> (\<Sum>d\<leftarrow>ds. \<bar>amount d\<bar>) \<le> 2 ^ 53"
  have set_eq: "set (sorted_donations ds) = set ds"
    by (metis mset_sorted_donations set_mset_mset)
  have "foldl js_add 0 (map amount (sorted_donations ds)) =
        0 + sum_list (map amount (sorted_donations ds))"
  proof (rule foldl_js_add_exact)
    show "\<forall>x\<in>set (map amount (sorted_donations ds)). x \<in> \<int>"
      using a by (simp add: set_eq)
    show "(0::rat) \<in> \<int>" by simp
    have "(\<Sum>x\<leftarrow>map amount (sorted_donations ds). \<bar>x\<bar>) = (\<Sum>d\<leftarrow>sorted_donations ds. \<bar>amount d\<bar>)"
      by (simp add: comp_def)
    also have "\<dots> = (\<Sum>d\<leftarrow>ds. \<bar>amount d\<bar>)"
      by (rule sum_list_sorted_donations)
    finally show "\<bar>0::rat\<bar> + (\<Sum>x\<leftarrow>map amount (sorted_donations ds). \<bar>x\<bar>) \<le> 2 ^ 53"
      using a by simp
  qed
  then show "total ds = (\<Sum>d\<leftarrow>ds. amount d)"
    by (simp add: total_amounts sum_list_sorted_donations)
qed

text \<open>
  Claim C2, amended, on the fallback list and its reversal: the total is 2,650,000.
\<close>

theorem total_order_independent_exact_below_2_53_witness:
  "mset (rev DEMO) = mset DEMO \<and> total (rev DEMO) = total DEMO \<and>
   list_all (\<lambda>d. amount d \<in> \<int>) DEMO \<and> sum_list (map (\<lambda>d. \<bar>amount d\<bar>) DEMO) \<le> 2 ^ 53 \<and>
   total DEMO = 2650000"
proof -
  have h1: "mset (rev DEMO) = mset DEMO" by simp
  have h2: "(\<forall>d\<in>set DEMO. amount d \<in> \<int>) \<and> (\<Sum>d\<leftarrow>DEMO. \<bar>amount d\<bar>) \<le> 2 ^ 53"
    by (simp add: DEMO_def)
  have s: "(\<Sum>d\<leftarrow>DEMO. amount d) = 2650000" by (simp add: DEMO_def)
  from total_order_independent_exact_below_2_53 [of "rev DEMO" DEMO] h1 h2 s
  show ?thesis by (simp add: list_all_iff)
qed

text \<open>
  Claim C3 says that the percentage is \<open>min(100, round(total / goal * 100))\<close>. With the
  shipped goal a total of 8,625,000 is 57.5 percent exactly: the formula gives 58 and the
  program 57, since the quotient it computes lies just below the half. At 75,000, which
  is 0.5 percent exactly, the program gives 1: no rule for ties makes the formula agree.
\<close>

theorem pct_differs_from_exact_rounding:
  "total [\<lparr> name = ''A'', amount = 8625000, timestamp = [], receiptUrl = [] \<rparr>] = 8625000
   \<and> 8625000 / DONATION_GOAL CONFIG * 100 = 115 / 2
   \<and> pct CONFIG (total [\<lparr> name = ''A'', amount = 8625000, timestamp = [], receiptUrl = [] \<rparr>]) = 57
   \<and> pct_exact CONFIG (total [\<lparr> name = ''A'', amount = 8625000, timestamp = [], receiptUrl = [] \<rparr>]) = 58
   \<and> total [\<lparr> name = ''B'', amount = 75000, timestamp = [], receiptUrl = [] \<rparr>] = 75000
   \<and> 75000 / DONATION_GOAL CONFIG * 100 = 1 / 2
   \<and> pct CONFIG (total [\<lparr> name = ''B'', amount = 75000, timestamp = [], receiptUrl = [] \<rparr>]) = 1"
  by code_simp

text \<open>
  Claim C3, amended. For a list of non-negative amounts and a positive goal, \<open>pct\<close> is a
  whole number between 0 and 100, and it is 100 as soon as the total reaches the goal
  (with the shipped goal a total of 20,000,000 gives 100). It lies between the values of
  the exact formula for the total lowered and raised by one part in \<open>2^51\<close>, so it differs
  from \<open>min(100, round(total / goal * 100))\<close> by at most 1, and only where the exact
  percentage is that close to a half.
\<close>

theorem pct_within_one_of_exact:
  assumes "\<forall>d\<in>set ds. 0 \<le> amount d" and "0 < DONATION_GOAL cfg"
  shows "pct cfg (total ds) \<in> \<int>
       \<and> 0 \<le> pct cfg (total ds) \<and> pct cfg (total ds) \<le> 100
       \<and> (DONATION_GOAL cfg \<le> total ds \<longrightarrow> pct cfg (total ds) = 100)
       \<and> pct_exact cfg (total ds * (1 - 1 / 2 ^ 51)) \<le> pct cfg (total ds)
       \<and> pct cfg (total ds) \<le> pct_exact cfg (total ds * (1 + 1 / 2 ^ 51))
       \<and> \<bar>pct cfg (total ds) - pct_exact cfg (total ds)\<bar> \<le> 1
       \<and> pct CONFIG 20000000 = 100"
proof -
  from assms(1) have t: "0 \<le> total ds" by (rule total_nonneg)
  note b = pct_between [OF t assms(2)] and e = pct_exact_spread [OF t assms(2)]
  have "pct cfg (total ds) \<in> \<int>"
    by (simp add: pct_def Math_min_def min_def Math_round_in_Ints)
  moreover from t assms(2) have "0 \<le> pct cfg (total ds)" "pct cfg (total ds) \<le> 100"
    by (simp_all add: pct_bounds)
  moreover have "pct cfg (total ds) = 100" if "DONATION_GOAL cfg \<le> total ds"
    using assms(2) that by (rule pct_goal_reached)
  moreover from b e have "\<bar>pct cfg (total ds) - pct_exact cfg (total ds)\<bar> \<le> 1"
    by linarith
  moreover have "pct CONFIG 20000000 = 100" by code_simp
  ultimately show ?thesis using b by blast
qed

text \<open>
  Claim C3, amended, on the fallback list and the shipped configuration: 18 percent, as
  the exact formula gives.
\<close>

theorem pct_within_one_of_exact_witness:
  "pct CONFIG (total DEMO) = 18 \<and> pct_exact CONFIG (total DEMO) = 18
   \<and> pct CONFIG (total DEMO) \<in> \<int>
   \<and> 0 \<le> pct CONFIG (total DEMO) \<and> pct CONFIG (total DEMO) \<le> 100
   \<and> \<bar>pct CONFIG (total DEMO) - pct_exact CONFIG (total DEMO)\<bar> \<le> 1"
proof -
  have a: "\<forall>d\<in>set DEMO. 0 \<le> amount d" by (simp add: DEMO_def)
  have g: "0 < DONATION_GOAL CONFIG" by (simp add: CONFIG_def)
  have v: "pct CONFIG (total DEMO) = 18" "pct_exact CONFIG (total DEMO) = 18" by code_simp+
  from pct_within_one_of_exact [OF a g] v show ?thesis by blast
qed







text \<open>
  Claim C6. Outside demo mode, when the fetch fails the new state is the old one with the
  error message set and \<open>loading\<close> cleared, so the donations are the ones held before;
  when it succeeds the donations are replaced by the received list, the error is cleared,
  and \<open>loading\<close> is cleared.
\<close>

theorem apply_fetch_result_atomic:
  assumes "\<not> isDemo cfg"
  shows "(\<forall>e. try_fetch (fetch (APPS_SCRIPT_URL cfg)) = Inl e \<longrightarrow>
            fst (fetchDonations cfg fetch st) = st\<lparr> error := Some ERROR_MESSAGE, loading := False \<rparr>
          \<and> donations (fst (fetchDonations cfg fetch st)) = donations st
          \<and> error (fst (fetchDonations cfg fetch st)) = Some ERROR_MESSAGE
          \<and> loading (fst (fetchDonations cfg fetch st)) = False)
       \<and> (\<forall>ds. try_fetch (fetch (APPS_SCRIPT_URL cfg)) = Inr ds \<longrightarrow>
            fst (fetchDonations cfg fetch st) = st\<lparr> donations := ds, error := None, loading := False \<rparr>
          \<and> donations (fst (fetchDonations cfg fetch st)) = ds
          \<and> error (fst (fetchDonations cfg fetch st)) = None
          \<and> loading (fst (fetchDonations cfg fetch st)) = False)"
  by (simp add: not_demo_fetch [OF assms])

text \<open>
  Claim C6 with the shipped configuration: a rejected request while the fallback list
  is held, then a success with an empty list while an error is shown.
\<close>

theorem apply_fetch_result_atomic_witness:
  "fst (fetchDonations CONFIG (\<lambda>url. Rejected)
          \<lparr> donations = DEMO, loading = True, error = None, lightboxSrc = None, dark = False \<rparr>)
     = \<lparr> donations = DEMO, loading = False, error = Some ERROR_MESSAGE, lightboxSrc = None, dark = False \<rparr>
   \<and> fst (fetchDonations CONFIG
          (\<lambda>url. Resolved \<lparr> status = 200, json = Json \<lparr> data_success = True, data_donations = Some [], data_error = None \<rparr> \<rparr>)
          \<lparr> donations = DEMO, loading = True, error = Some ERROR_MESSAGE, lightboxSrc = None, dark = False \<rparr>)
     = \<lparr> donations = [], loading = False, error = None, lightboxSrc = None, dark = False \<rparr>"
proof -
  have n: "\<not> isDemo CONFIG" by (simp add: isDemo_def CONFIG_def)
  have f: "try_fetch Rejected = Inl NetworkError" by (simp add: try_fetch_def)
  have s: "try_fetch (Resolved \<lparr> status = 200, json = Json \<lparr> data_success = True, data_donations = Some [], data_error = None \<rparr> \<rparr>) = Inr []"
    by (simp add: try_fetch_def ok_def)
  from apply_fetch_result_atomic [OF n, of "\<lambda>url. Rejected"
      "\<lparr> donations = DEMO, loading = True, error = None, lightboxSrc = None, dark = False \<rparr>"]
    apply_fetch_result_atomic [OF n, of "\<lambda>url. Resolved \<lparr> status = 200, json = Json \<lparr> data_success = True, data_donations = Some [], data_error = None \<rparr> \<rparr>"
      "\<lparr> donations = DEMO, loading = True, error = Some ERROR_MESSAGE, lightboxSrc = None, dark = False \<rparr>"]
    f s
  show ?thesis by simp
qed




text \<open>
  Claim C8. When a render brings a new target at time \<open>t\<close>, the effect runs again with
  \<open>t\<close> as its start. The previous value stays on display until the next frame. From
  that frame on the animator is in the state that one newly mounted at \<open>t\<close> for the new
  target would be in: its value is the eased value of the time elapsed since the change,
  0 when none has elapsed, and owes nothing to the value shown before.
\<close>

theorem target_change_restarts_from_zero:
  assumes "tgt \<noteq> target h" and "0 < dur" and "pow 1 4 = 1" and "sorted (t # now # nows)"
  shows "value (rerender tgt dur t h) = value h
       \<and> start (rerender tgt dur t h) = t
       \<and> pending (rerender tgt dur t h)
       \<and> frames pow (now # nows) (rerender tgt dur t h)
           = frames pow (now # nows) (mount tgt dur t)
       \<and> value (frames pow (now # nows) (rerender tgt dur t h))
           = eased_value pow tgt (progress dur t (last (now # nows)))
       \<and> (last (now # nows) = t \<longrightarrow>
            value (frames pow (now # nows) (rerender tgt dur t h)) = 0)"
proof -
  from assms(4) have srt: "sorted (now # nows)" by simp
  have same: "frames pow (now # nows) (rerender tgt dur t h)
           = frames pow (now # nows) (mount tgt dur t)"
    by (simp add: step_rerender_mount [OF assms(1)])
  have v: "value (frames pow (now # nows) (rerender tgt dur t h))
           = eased_value pow tgt (progress dur t (last (now # nows)))"
    by (simp only: same frames_mount_value [OF assms(2) srt])
  have z: "value (frames pow (now # nows) (rerender tgt dur t h)) = 0"
    if "last (now # nows) = t"
    using assms(3) by (simp only: v that progress_start eased_value_0)
  from assms(1) have r: "value (rerender tgt dur t h) = value h
       \<and> start (rerender tgt dur t h) = t \<and> pending (rerender tgt dur t h)"
    by (simp add: rerender_def)
  from r same v z show ?thesis by blast
qed

text \<open>
  Claim C8: an animator showing 937,500 on its way to 1,000,000 gets the target 2,000,000
  at time 1000; the frame at time 1000 shows 0, the frame at time 1900 shows 1,875,000.
\<close>

theorem target_change_restarts_from_zero_witness:
  "value (frames pow_rounded [0, 900] (mount 1000000 1800 0)) = 937500
   \<and> value (frames pow_rounded [1000]
        (rerender 2000000 1800 1000 (frames pow_rounded [0, 900] (mount 1000000 1800 0)))) = 0
   \<and> value (frames pow_rounded [1000, 1900]
        (rerender 2000000 1800 1000 (frames pow_rounded [0, 900] (mount 1000000 1800 0))))
       = 1875000"
proof -
  let ?h = "frames pow_rounded [0, 900] (mount 1000000 1800 0)"
  have v: "value ?h = 937500" by code_simp
  have c: "2000000 \<noteq> target ?h" by (simp add: step_def mount_def Let_def)
  have d: "(0::rat) < 1800" by simp
  have p1: "pow_rounded 1 4 = 1" by (simp add: pow_rounded_def to_double_1)
  have s1: "sorted [1000, 1000 :: rat]" and s2: "sorted [1000, 1000, 1900 :: rat]"
    by simp_all
  have e: "eased_value pow_rounded 2000000 (progress 1800 1000 1900) = 1875000"
    by code_simp
  note first = target_change_restarts_from_zero [where pow = pow_rounded and tgt = 2000000
      and h = "?h" and dur = 1800 and t = 1000 and now = 1000 and nows = "[]", OF c d p1 s1]
  note later = target_change_restarts_from_zero [where pow = pow_rounded and tgt = 2000000
      and h = "?h" and dur = 1800 and t = 1000 and now = 1000 and nows = "[1900]", OF c d p1 s2]
  have "last [1000 :: rat] = 1000" by simp
  with first have z: "value (frames pow_rounded [1000] (rerender 2000000 1800 1000 ?h)) = 0"
    by blast
  from later have "value (frames pow_rounded [1000, 1900] (rerender 2000000 1800 1000 ?h))
      = eased_value pow_rounded 2000000 (progress 1800 1000 (last [1000, 1900]))"
    by blast
  with e have f: "value (frames pow_rounded [1000, 1900] (rerender 2000000 1800 1000 ?h))
      = 1875000"
    by simp
  from v z f show ?thesis by blast
qed

text \<open>
  Claim C9 says that every response with a success status and a body that parses has
  its \<open>donations\<close> applied and the error cleared. The body null parses; reading
  \<^verbatim>\<open>data.donations\<close> throws, the error message is set and the list held before is kept.
\<close>

theorem null_body_sets_error:
  "http_ok \<lparr> http_status = 200, http_json = Parsed JNull \<rparr>
   \<and> error_js (fst (fetchDonations_js CONFIG
        (\<lambda>url. Responded \<lparr> http_status = 200, http_json = Parsed JNull \<rparr>)
        (state_js ((initial False)\<lparr> donations := DEMO, loading := False \<rparr>))))
     = Some ''Could not load donation data. Will retry automatically.''
   \<and> donations_js (fst (fetchDonations_js CONFIG
        (\<lambda>url. Responded \<lparr> http_status = 200, http_json = Parsed JNull \<rparr>)
        (state_js ((initial False)\<lparr> donations := DEMO, loading := False \<rparr>))))
     = donations_json DEMO
   \<and> donations_json DEMO \<noteq> JArray []"
  by (simp add: fetchDonations_js_def isDemo_def CONFIG_def try_fetch_js_def http_ok_def
      read_donations_def Let_def state_js_def initial_def ERROR_MESSAGE_def donations_json_def DEMO_def)

text \<open>
  Claim C9, amended. Outside demo mode, for a response with a success status and a body
  that parses to a value other than null, \<open>donations\<close> becomes the \<open>donations\<close> member of
  the body as it is (the empty list when it is absent or null) and the error is cleared.
  Any other such body with the same \<open>donations\<close> member gives the same state and the
  same requests; so does the body with a \<open>success\<close> flag and an \<open>error\<close> member added,
  whatever they are.
\<close>

theorem success_flag_ignored_for_non_null_body:
  assumes "\<not> isDemo cfg" and "fetch (APPS_SCRIPT_URL cfg) = Responded res"
    and "http_ok res" and "http_json res = Parsed data" and "data \<noteq> JNull"
  shows "donations_js (fst (fetchDonations_js cfg fetch st))
           = (case donations_field data of
                None \<Rightarrow> JArray []
              | Some v \<Rightarrow> if v = JNull then JArray [] else v)
       \<and> error_js (fst (fetchDonations_js cfg fetch st)) = None
       \<and> loading_js (fst (fetchDonations_js cfg fetch st)) = False
       \<and> (\<forall>data'. data' \<noteq> JNull \<and> donations_field data' = donations_field data \<longrightarrow>
            fetchDonations_js cfg (\<lambda>url. Responded (res\<lparr> http_json := Parsed data' \<rparr>)) st
            = fetchDonations_js cfg fetch st)
       \<and> (\<forall>members flag err. data = JObject members \<longrightarrow>
            fetchDonations_js cfg (\<lambda>url. Responded (res\<lparr> http_json :=
                Parsed (JObject ((''success'', JBool flag) # (''error'', JString err) # members)) \<rparr>)) st
            = fetchDonations_js cfg fetch st)"
  using assms
  by (simp add: not_demo_fetch_js try_fetch_js_def read_donations_def http_ok_def
      donations_field_other_members del: donations_field.simps)

text \<open>
  Claim C9, amended, with the shipped configuration and a body whose \<open>success\<close> flag is
  false and whose \<open>error\<close> member is set.
\<close>

theorem success_flag_ignored_for_non_null_body_witness:
  "donations_js (fst (fetchDonations_js CONFIG
      (\<lambda>url. Responded \<lparr> http_status = 200, http_json = Parsed (JObject
         [(''success'', JBool False), (''donations'', donations_json DEMO),
          (''error'', JString ''quota exceeded'')]) \<rparr>)
      (state_js (initial False)))) = donations_json DEMO
   \<and> error_js (fst (fetchDonations_js CONFIG
      (\<lambda>url. Responded \<lparr> http_status = 200, http_json = Parsed (JObject
         [(''success'', JBool False), (''donations'', donations_json DEMO),
          (''error'', JString ''quota exceeded'')]) \<rparr>)
      (state_js (initial False)))) = None"
proof -
  let ?data = "JObject [(''success'', JBool False), (''donations'', donations_json DEMO),
          (''error'', JString ''quota exceeded'')]"
  let ?res = "\<lparr> http_status = 200, http_json = Parsed ?data \<rparr>"
  have n: "\<not> isDemo CONFIG" by (simp add: isDemo_def CONFIG_def)
  have f: "(\<lambda>url. Responded ?res) (APPS_SCRIPT_URL CONFIG) = Responded ?res" by simp
  have o: "http_ok ?res" by (simp add: http_ok_def)
  have j: "http_json ?res = Parsed ?data" by simp
  have d: "?data \<noteq> JNull" by simp
  have v: "donations_field ?data = Some (donations_json DEMO)" by simp
  have a: "donations_json DEMO \<noteq> JNull" by (simp add: donations_json_def)
  from success_flag_ignored_for_non_null_body [OF n f o j d, of "state_js (initial False)"] a
  show ?thesis by (simp only: v option.case if_False simp_thms)
qed

text \<open>
  Claim C10. The URL of the shipped configuration is not the sentinel, so \<open>isDemo\<close> is
  false and the setup notice is not rendered; \<open>fetchDonations\<close> is its second branch and
  makes one request to that URL, and so does every one of the refresh cycles.
\<close>

theorem shipped_config_always_fetches:
  "APPS_SCRIPT_URL CONFIG = ''https://script.google.com/macros/s/AKfycbyskWmGGiHqGGk8frH3sLakCFMm-MiHBz2m87FZCzJyaVg6CcCaCcDgghhsFtZzvDDmFA/exec''
   \<and> APPS_SCRIPT_URL CONFIG \<noteq> ''YOUR_APPS_SCRIPT_URL''
   \<and> \<not> isDemo CONFIG
   \<and> \<not> demo_notice CONFIG
   \<and> fetchDonations CONFIG fetch st =
       ((case try_fetch (fetch (APPS_SCRIPT_URL CONFIG)) of
           Inr ds \<Rightarrow> st\<lparr> donations := ds, error := None \<rparr>
         | Inl e \<Rightarrow> st\<lparr> error := Some ERROR_MESSAGE \<rparr>)\<lparr> loading := False \<rparr>,
        [APPS_SCRIPT_URL CONFIG])
   \<and> snd (fetchDonations CONFIG fetch st) = [APPS_SCRIPT_URL CONFIG]
   \<and> snd (refresh CONFIG fetches st) = replicate (length fetches) (APPS_SCRIPT_URL CONFIG)"
proof -
  have n: "\<not> isDemo CONFIG" by (simp add: isDemo_def CONFIG_def)
  then show ?thesis
    by (simp add: demo_notice_def not_demo_fetch refresh_not_demo) (simp add: CONFIG_def)
qed

end
